theory Spec2Isabelle
  imports Main "HOL-Library.Word"
begin

section \<open>Fixed-point autocorrelation (telecom/autcor00/autcor00.c)\<close>

text \<open>
  Modelled from the spec: the integer types \<open>e_s16\<close>, \<open>e_s32\<close> and \<open>n_int\<close>, which
  \<open>autcor00.c\<close> takes from \<open>algo.h\<close>, a header that is not among the sources at hand.
  By their names and by the specification \<open>e_s16\<close> is a signed 16-bit integer and
  \<open>e_s32\<close> a signed 32-bit integer; \<open>n_int\<close> is the native \<open>int\<close>. The loop counters
  of type \<open>n_int\<close> stay between \<open>-65534\<close> and \<open>32767\<close>, so they are modelled as
  mathematical integers; an \<open>e_s16\<close> argument enters their arithmetic through \<open>sint\<close>,
  the integer promotion. Arithmetic on \<open>e_s32\<close> is two's complement, as the
  specification has it: the accumulator wraps around modulo \<open>2 ^ 32\<close>, a right shift
  of a negative value extends the sign, and a conversion to \<open>e_s16\<close> keeps the low 16
  bits. The product of two widened samples is at most \<open>2 ^ 30\<close> in magnitude and never
  wraps.
\<close>

type_synonym e_s16 = "16 word"
type_synonym e_s32 = "32 word"
type_synonym n_int = int

text \<open>
  The kernel works on two C arrays of \<open>e_s16\<close> that it reaches through pointers, so the
  embedding keeps an explicit store: a partial map from cell addresses to 16-bit words,
  whose domain is the set of cells the caller owns. A pointer is the address of a cell
  and \<open>p[i]\<close> is the cell at \<open>p + i\<close>.
\<close>

type_synonym addr = int
type_synonym heap = "addr \<rightharpoonup> e_s16"

text \<open>
  The kernel has no error return. An access to a cell outside the store, which C leaves
  undefined, is a result of its own in the model.
\<close>

datatype fault = OutOfBounds

definition load :: "heap \<Rightarrow> addr \<Rightarrow> n_int \<Rightarrow> fault + e_s16" where
  "load h p i = (case h (p + i) of None \<Rightarrow> Inl OutOfBounds | Some v \<Rightarrow> Inr v)"

definition store :: "heap \<Rightarrow> addr \<Rightarrow> n_int \<Rightarrow> e_s16 \<Rightarrow> fault + heap" where
  "store h p i v = (if p + i \<in> dom h then Inr (h(p + i \<mapsto> v)) else Inl OutOfBounds)"

text \<open>
  \<open>x >> n\<close> on a signed 32-bit operand: the arithmetic shift by \<open>n\<close> for a count from
  0 to 31. The kernel does not check the count and goes on whatever it is. For a count
  outside 0 to 31, where C does not fix the result, the shift takes the low five bits
  of the count, as the shift instruction of the x86 family does.
\<close>

definition shr_s32 :: "e_s32 \<Rightarrow> int \<Rightarrow> e_s32" where
  "shr_s32 x n = signed_drop_bit (nat (n mod 32)) x"

text \<open>
  The inner loop
  \<^verbatim>\<open>for (i = 0; i < LastIndex; i++)
      Accumulator += ((e_s32) InputData[i] * (e_s32) InputData[i+lag]) >> Scale;\<close>
  started at any \<open>i\<close> with any value of the accumulator.
\<close>

function inner_loop ::
  "heap \<Rightarrow> addr \<Rightarrow> n_int \<Rightarrow> e_s16 \<Rightarrow> n_int \<Rightarrow> n_int \<Rightarrow> e_s32 \<Rightarrow> fault + e_s32" where
  "inner_loop h InputData lag Scale LastIndex i Accumulator =
     (if i < LastIndex then
        (case load h InputData i of
           Inl e \<Rightarrow> Inl e
         | Inr a \<Rightarrow>
        (case load h InputData (i + lag) of
           Inl e \<Rightarrow> Inl e
         | Inr b \<Rightarrow>
             inner_loop h InputData lag Scale LastIndex (i + 1)
               (Accumulator + shr_s32 (scast a * scast b) (sint Scale))))
      else Inr Accumulator)"
  by pat_completeness auto
termination
  by (relation "measure (\<lambda>(h, p, lag, s, LastIndex, i, acc). nat (LastIndex - i))") auto

declare inner_loop.simps [simp del]

text \<open>
  The outer loop
  \<^verbatim>\<open>for (lag = 0; lag < NumberOfLags; lag++) {
      Accumulator = 0;
      LastIndex = DataSize - lag;
      ... inner loop ...
      AutoCorrData[lag] = (e_s16) (Accumulator >> 16);
  }\<close>
  started at any \<open>lag\<close>. The shift by the constant 16 is always defined.
\<close>

function outer_loop ::
  "heap \<Rightarrow> addr \<Rightarrow> addr \<Rightarrow> e_s16 \<Rightarrow> e_s16 \<Rightarrow> e_s16 \<Rightarrow> n_int \<Rightarrow> fault + heap" where
  "outer_loop h InputData AutoCorrData DataSize NumberOfLags Scale lag =
     (if lag < sint NumberOfLags then
        (case inner_loop h InputData lag Scale (sint DataSize - lag) 0 0 of
           Inl e \<Rightarrow> Inl e
         | Inr Accumulator \<Rightarrow>
        (case store h AutoCorrData lag (scast (signed_drop_bit 16 Accumulator)) of
           Inl e \<Rightarrow> Inl e
         | Inr h' \<Rightarrow>
             outer_loop h' InputData AutoCorrData DataSize NumberOfLags Scale (lag + 1)))
      else Inr h)"
  by pat_completeness auto
termination
  by (relation "measure (\<lambda>(h, p, q, d, n, s, lag). nat (sint n - lag))") auto

declare outer_loop.simps [simp del]

definition fxpAutoCorrelation ::
  "heap \<Rightarrow> addr \<Rightarrow> addr \<Rightarrow> e_s16 \<Rightarrow> e_s16 \<Rightarrow> e_s16 \<Rightarrow> fault + heap" where
  "fxpAutoCorrelation h InputData AutoCorrData DataSize NumberOfLags Scale =
     outer_loop h InputData AutoCorrData DataSize NumberOfLags Scale 0"

section \<open>The caller's contract and the coefficients in plain integers\<close>

text \<open>
  The sequence held by the cells \<open>p, p + 1, ...\<close> of a store, and what the caller has
  to guarantee: the input cells hold the sample sequence, the output cells belong to the
  store, and the two arrays do not overlap.
\<close>

definition read_array :: "heap \<Rightarrow> addr \<Rightarrow> nat \<Rightarrow> e_s16 option list" where
  "read_array h p n = map (\<lambda>i. h (p + int i)) [0..<n]"

definition holds_at :: "heap \<Rightarrow> addr \<Rightarrow> e_s16 list \<Rightarrow> bool" where
  "holds_at h p xs \<longleftrightarrow> read_array h p (length xs) = map Some xs"

definition allocated :: "heap \<Rightarrow> addr \<Rightarrow> nat \<Rightarrow> bool" where
  "allocated h p n \<longleftrightarrow> list_all (\<lambda>i. h (p + int i) \<noteq> None) [0..<n]"

definition separate :: "addr \<Rightarrow> int \<Rightarrow> addr \<Rightarrow> int \<Rightarrow> bool" where
  "separate p m q n \<longleftrightarrow> q + n \<le> p \<or> p + m \<le> q"

text \<open>
  What a call makes observable: the fault, or the first \<open>n\<close> cells of the output array.
\<close>

definition outcome :: "fault + heap \<Rightarrow> addr \<Rightarrow> nat \<Rightarrow> fault + e_s16 option list" where
  "outcome r q n = (case r of Inl e \<Rightarrow> Inl e | Inr h' \<Rightarrow> Inr (read_array h' q n))"

text \<open>
  The coefficient at lag \<open>L\<close> over the integers: each product of two samples is divided
  by \<open>2 ^ s\<close> rounding down, the quotients are summed, the sum is reduced to a signed
  32-bit value, divided by \<open>2 ^ 16\<close> rounding down, and kept as a 16-bit word.
\<close>

definition scaled_product :: "e_s16 list \<Rightarrow> nat \<Rightarrow> nat \<Rightarrow> nat \<Rightarrow> int" where
  "scaled_product xs s L i = (sint (xs ! i) * sint (xs ! (i + L))) div 2 ^ s"

definition lag_sum :: "e_s16 list \<Rightarrow> nat \<Rightarrow> nat \<Rightarrow> nat \<Rightarrow> int" where
  "lag_sum xs D s L = (\<Sum>i\<leftarrow>[0..<D - L]. scaled_product xs s L i)"

definition coefficient :: "e_s16 list \<Rightarrow> nat \<Rightarrow> nat \<Rightarrow> nat \<Rightarrow> e_s16" where
  "coefficient xs D s L = word_of_int (signed_take_bit 31 (lag_sum xs D s L) div 2 ^ 16)"

text \<open>
  The same coefficient in the kernel's own 32-bit arithmetic, for any \<open>Scale\<close>.
\<close>

definition shifted_term :: "e_s16 list \<Rightarrow> e_s16 \<Rightarrow> nat \<Rightarrow> nat \<Rightarrow> e_s32" where
  "shifted_term xs Scale L i = shr_s32 (scast (xs ! i) * scast (xs ! (i + L))) (sint Scale)"

definition word_coefficient :: "e_s16 list \<Rightarrow> nat \<Rightarrow> e_s16 \<Rightarrow> nat \<Rightarrow> e_s16" where
  "word_coefficient xs D Scale L =
     scast (signed_drop_bit 16 (\<Sum>i\<leftarrow>[0..<D - L]. shifted_term xs Scale L i))"

text \<open>
  The reference variant without the per-term shift, written from the specification's
  words for comparison with the kernel at \<open>Scale = 0\<close>: for each lag the sample pairs
  are multiplied in the 32-bit signed domain, the products are summed as they are, and
  the most significant word of the 32-bit sum is extracted.
\<close>

definition unshifted_coefficient :: "e_s16 list \<Rightarrow> nat \<Rightarrow> nat \<Rightarrow> e_s16" where
  "unshifted_coefficient xs D L =
     scast (signed_drop_bit 16
       (\<Sum>i\<leftarrow>[0..<D - L]. (scast (xs ! i) * scast (xs ! (i + L)) :: e_s32)))"

definition unshifted_autocorrelation :: "e_s16 list \<Rightarrow> nat \<Rightarrow> nat \<Rightarrow> e_s16 list" where
  "unshifted_autocorrelation xs D N = map (unshifted_coefficient xs D) [0..<N]"

text \<open>
  Stores for the worked examples. In each but \<open>moved_store\<close> the input array starts at
  cell 0 and the output array at cell 10, and the output cells start out as 7;
  \<open>moved_store\<close> holds the samples of \<open>scenario_store\<close> at cell 100, has its output
  array at cell 50 with other contents, and one more cell.
\<close>

definition scenario_store :: heap where
  "scenario_store =
     [0 \<mapsto> 4, 1 \<mapsto> 2, 2 \<mapsto> 1, 3 \<mapsto> - 3, 4 \<mapsto> 5, 10 \<mapsto> 7, 11 \<mapsto> 7, 12 \<mapsto> 7]"

definition moved_store :: heap where
  "moved_store =
     [100 \<mapsto> 4, 101 \<mapsto> 2, 102 \<mapsto> 1, 103 \<mapsto> - 3, 104 \<mapsto> 5,
      50 \<mapsto> 0, 51 \<mapsto> 9, 52 \<mapsto> - 9, 7 \<mapsto> 1]"

definition loud_store :: heap where
  "loud_store = [0 \<mapsto> 256, 1 \<mapsto> 256, 10 \<mapsto> 7]"

definition silent_store :: heap where
  "silent_store = [0 \<mapsto> 0, 1 \<mapsto> 0, 10 \<mapsto> 7]"

definition saturated_store :: heap where
  "saturated_store =
     [0 \<mapsto> - 32768, 1 \<mapsto> - 32768, 2 \<mapsto> - 32768, 3 \<mapsto> - 32768, 10 \<mapsto> 7, 11 \<mapsto> 7]"

section \<open>Word arithmetic of one term and of the final extraction\<close>

lemma sint16_bounds: "- 32768 \<le> sint (a :: e_s16) \<and> sint a < 32768"
  using sint_ge [of a] sint_lt [of a] by simp

lemma prod16_bounds:
  fixes a b :: int
  assumes "- 32768 \<le> a" "a < 32768" "- 32768 \<le> b" "b < 32768"
  shows "\<bar>a * b\<bar> \<le> 1073741824"
proof -
  have "\<bar>a\<bar> \<le> 32768" "\<bar>b\<bar> \<le> 32768" using assms by auto
  then have "\<bar>a\<bar> * \<bar>b\<bar> \<le> 32768 * 32768"
    by (intro mult_mono) auto
  then show ?thesis by (simp add: abs_mult)
qed

lemma sint_scast_16_32: "sint (scast (a :: e_s16) :: e_s32) = sint a"
  by (simp add: sint_up_scast is_up)

lemma sint_widened_product:
  "sint (scast (a :: e_s16) * scast (b :: e_s16) :: e_s32) = sint a * sint b"
proof -
  have "\<bar>sint a * sint b\<bar> \<le> 1073741824"
    using sint16_bounds [of a] sint16_bounds [of b] by (intro prod16_bounds) auto
  then have "signed_take_bit 31 (sint a * sint b) = sint a * sint b"
    by (intro signed_take_bit_int_eq_self) auto
  then show ?thesis
    by (simp add: sint_word_mult sint_scast_16_32)
qed

lemma sint_shift: "sint (signed_drop_bit n (w :: e_s32)) = sint w div 2 ^ n"
  by (simp add: sint_signed_drop_bit_eq drop_bit_eq_div)

lemma shifted_product:
  "signed_drop_bit n (scast (a :: e_s16) * scast (b :: e_s16) :: e_s32) =
     word_of_int (sint a * sint b div 2 ^ n)"
proof -
  have "sint (signed_drop_bit n (scast a * scast b :: e_s32)) = sint a * sint b div 2 ^ n"
    by (simp add: sint_shift sint_widened_product)
  then have "word_of_int (sint (signed_drop_bit n (scast a * scast b :: e_s32))) =
     (word_of_int (sint a * sint b div 2 ^ n) :: e_s32)"
    by (rule arg_cong)
  then show ?thesis by simp
qed

lemma sint_msw: "sint (scast (signed_drop_bit 16 (w :: e_s32)) :: e_s16) = sint w div 65536"
proof -
  have "- 2147483648 \<le> sint w" "sint w < 2147483648"
    using sint_ge [of w] sint_lt [of w] by simp_all
  then have "- 32768 \<le> sint w div 65536" "sint w div 65536 < 32768"
    by simp_all
  then have "signed_take_bit 15 (sint w div 65536) = sint w div 65536"
    by (intro signed_take_bit_int_eq_self) auto
  then show ?thesis
    by (simp add: scast_eq sint_shift sint_sbintrunc')
qed

lemma msw_of_int:
  "(scast (signed_drop_bit 16 (word_of_int k :: e_s32)) :: e_s16) =
     word_of_int (signed_take_bit 31 k div 2 ^ 16)"
proof -
  have "sint (scast (signed_drop_bit 16 (word_of_int k :: e_s32)) :: e_s16) =
     signed_take_bit 31 k div 65536"
    by (simp add: sint_msw sint_sbintrunc')
  then have "word_of_int (sint (scast (signed_drop_bit 16 (word_of_int k :: e_s32)) :: e_s16)) =
     (word_of_int (signed_take_bit 31 k div 65536) :: e_s16)"
    by (rule arg_cong)
  then show ?thesis by simp
qed

lemma word_of_int_sum_list:
  "(word_of_int (\<Sum>i\<leftarrow>is. f i) :: e_s32) = (\<Sum>i\<leftarrow>is. word_of_int (f i))"
  by (induction "is") simp_all

lemma shr_s32_in_range: "0 \<le> n \<Longrightarrow> n < 32 \<Longrightarrow> shr_s32 x n = signed_drop_bit (nat n) x"
  by (simp add: shr_s32_def)

lemma shr_s32_zero: "shr_s32 0 n = 0"
  by (simp add: shr_s32_def)

lemma shifted_term_in_range:
  assumes "0 \<le> sint Scale" "sint Scale < 32"
  shows "shifted_term xs Scale L i = word_of_int (scaled_product xs (nat (sint Scale)) L i)"
  using assms by (simp add: shifted_term_def shr_s32_in_range shifted_product scaled_product_def)

lemma word_coefficient_in_range:
  assumes "0 \<le> sint Scale" "sint Scale < 32"
  shows "word_coefficient xs D Scale L = coefficient xs D (nat (sint Scale)) L"
proof -
  have "(\<Sum>i\<leftarrow>[0..<D - L]. shifted_term xs Scale L i) =
      word_of_int (lag_sum xs D (nat (sint Scale)) L)"
    by (simp add: lag_sum_def word_of_int_sum_list shifted_term_in_range [OF assms])
  then show ?thesis
    by (simp only: word_coefficient_def msw_of_int coefficient_def)
qed

section \<open>The two loops\<close>

lemma load_Some: "h (p + i) = Some v \<Longrightarrow> load h p i = Inr v"
  by (simp add: load_def)

text \<open>
  With the samples in the store, the inner loop returns the accumulator it was given
  plus the shifted products that remain, modulo \<open>2 ^ 32\<close>. For a count from 0 to 31
  the shifted products are the products divided by \<open>2 ^ Scale\<close> rounding down.
\<close>

lemma inner_loop_terms:
  "\<forall>j<n. h (p + int j) = Some (xs ! j) \<Longrightarrow> 0 \<le> lag \<Longrightarrow> 0 \<le> i \<Longrightarrow> LastIndex + lag \<le> int n \<Longrightarrow>
     inner_loop h p lag Scale LastIndex i acc =
       Inr (acc + (\<Sum>j\<leftarrow>[nat i..<nat LastIndex]. shifted_term xs Scale (nat lag) j))"
proof (induction h p lag Scale LastIndex i acc rule: inner_loop.induct)
  case (1 h p lag Scale LastIndex i acc)
  show ?case
  proof (cases "i < LastIndex")
    case False
    then show ?thesis by (simp add: inner_loop.simps)
  next
    case True
    have ni: "nat i < n" "nat i + nat lag < n"
      using True "1.prems" by auto
    have a: "load h p i = Inr (xs ! nat i)"
      using "1.prems"(1,3) ni(1) by (intro load_Some) (metis int_nat_eq)
    have b: "load h p (i + lag) = Inr (xs ! (nat i + nat lag))"
    proof (rule load_Some)
      have "h (p + int (nat i + nat lag)) = Some (xs ! (nat i + nat lag))"
        using "1.prems"(1) ni(2) by blast
      moreover have "int (nat i + nat lag) = i + lag"
        using "1.prems" by simp
      ultimately show "h (p + (i + lag)) = Some (xs ! (nat i + nat lag))" by simp
    qed
    have t: "shr_s32 (scast (xs ! nat i) * scast (xs ! (nat i + nat lag))) (sint Scale) =
        shifted_term xs Scale (nat lag) (nat i)"
      by (simp add: shifted_term_def)
    have step: "inner_loop h p lag Scale LastIndex i acc =
        inner_loop h p lag Scale LastIndex (i + 1)
          (acc + shifted_term xs Scale (nat lag) (nat i))"
      using True by (subst inner_loop.simps) (simp add: a b t)
    have rest: "inner_loop h p lag Scale LastIndex (i + 1)
          (acc + shr_s32 (scast (xs ! nat i) * scast (xs ! (nat i + nat lag))) (sint Scale)) =
        Inr (acc + shr_s32 (scast (xs ! nat i) * scast (xs ! (nat i + nat lag))) (sint Scale) +
          (\<Sum>j\<leftarrow>[nat (i + 1)..<nat LastIndex]. shifted_term xs Scale (nat lag) j))"
      using "1.prems" by (intro "1.IH" [OF True a b]) auto
    have split: "[nat i..<nat LastIndex] = nat i # [nat (i + 1)..<nat LastIndex]"
      using True "1.prems"(3) by (simp add: upt_conv_Cons nat_add_distrib)
    show ?thesis
      using rest by (simp add: step t split add.assoc)
  qed
qed

lemma inner_loop_sum:
  "\<forall>j<n. h (p + int j) = Some (xs ! j) \<Longrightarrow> 0 \<le> lag \<Longrightarrow> 0 \<le> sint Scale \<Longrightarrow> sint Scale < 32 \<Longrightarrow>
   0 \<le> i \<Longrightarrow> LastIndex + lag \<le> int n \<Longrightarrow>
     inner_loop h p lag Scale LastIndex i acc =
       Inr (acc + word_of_int (\<Sum>j\<leftarrow>[nat i..<nat LastIndex].
                                  scaled_product xs (nat (sint Scale)) (nat lag) j))"
  by (simp add: inner_loop_terms word_of_int_sum_list shifted_term_in_range)

text \<open>
  When every cell the inner loop can reach holds zero, each product is zero, its shift
  by any count is zero, and the accumulator comes back as it was given.
\<close>

lemma inner_loop_zero:
  "\<forall>j. 0 \<le> j \<and> j < n \<longrightarrow> h (p + j) = Some 0 \<Longrightarrow> 0 \<le> lag \<Longrightarrow> 0 \<le> i \<Longrightarrow> LastIndex + lag \<le> n \<Longrightarrow>
     inner_loop h p lag Scale LastIndex i acc = Inr acc"
proof (induction h p lag Scale LastIndex i acc rule: inner_loop.induct)
  case (1 h p lag Scale LastIndex i acc)
  show ?case
  proof (cases "i < LastIndex")
    case False
    then show ?thesis by (simp add: inner_loop.simps)
  next
    case True
    have a: "load h p i = Inr 0" and b: "load h p (i + lag) = Inr 0"
      using True "1.prems" by (auto intro!: load_Some)
    have "inner_loop h p lag Scale LastIndex (i + 1)
        (acc + shr_s32 (scast (0 :: e_s16) * scast (0 :: e_s16)) (sint Scale)) =
      Inr (acc + shr_s32 (scast (0 :: e_s16) * scast (0 :: e_s16)) (sint Scale))"
      using "1.prems" by (intro "1.IH" [OF True a b]) auto
    then show ?thesis
      using True a b by (subst inner_loop.simps) (simp add: shr_s32_zero)
  qed
qed

text \<open>
  The inner loop reads the cells \<open>i\<close> and \<open>i + lag\<close> for \<open>i < LastIndex\<close> only: when
  the cells below \<open>LastIndex + lag\<close> belong to the store, no read leaves it.
\<close>

lemma inner_loop_in_bounds:
  "\<forall>j. 0 \<le> j \<and> j < n \<longrightarrow> p + j \<in> dom h \<Longrightarrow> 0 \<le> lag \<Longrightarrow> 0 \<le> i \<Longrightarrow> LastIndex + lag \<le> n \<Longrightarrow>
     inner_loop h p lag Scale LastIndex i acc \<noteq> Inl OutOfBounds"
proof (induction h p lag Scale LastIndex i acc rule: inner_loop.induct)
  case (1 h p lag Scale LastIndex i acc)
  show ?case
  proof (cases "i < LastIndex")
    case False
    then show ?thesis by (simp add: inner_loop.simps)
  next
    case True
    have "p + i \<in> dom h" "p + (i + lag) \<in> dom h"
      using True "1.prems" by auto
    then obtain a b where a: "load h p i = Inr a" and b: "load h p (i + lag) = Inr b"
      by (auto simp: load_def)
    have "inner_loop h p lag Scale LastIndex (i + 1)
        (acc + shr_s32 (scast a * scast b) (sint Scale)) \<noteq> Inl OutOfBounds"
      using "1.prems" by (intro "1.IH" [OF True a b]) auto
    with True a b show ?thesis
      by (subst inner_loop.simps) simp
  qed
qed

text \<open>
  The outer loop started at \<open>lag\<close> writes the output cells from \<open>lag\<close> up to
  \<open>NumberOfLags - 1\<close> and nothing else, and the store keeps its domain.
\<close>

lemma outer_loop_done:
  "\<not> lag < sint NumberOfLags \<Longrightarrow> outer_loop h p q D NumberOfLags S lag = Inr h"
  by (subst outer_loop.simps) simp

lemma outer_loop_frame:
  "outer_loop h p q D N S lag = Inr h' \<Longrightarrow>
     dom h' = dom h \<and> (\<forall>a. \<not> (q + lag \<le> a \<and> a < q + sint N) \<longrightarrow> h' a = h a)"
proof (induction h p q D N S lag rule: outer_loop.induct)
  case (1 h p q D N S lag)
  show ?case
  proof (cases "lag < sint N")
    case False
    with "1.prems" show ?thesis by (simp add: outer_loop_done)
  next
    case True
    from "1.prems" True obtain acc h1
      where acc: "inner_loop h p lag S (sint D - lag) 0 0 = Inr acc"
        and h1: "store h q lag (scast (signed_drop_bit 16 acc)) = Inr h1"
        and rest: "outer_loop h1 p q D N S (lag + 1) = Inr h'"
      by (subst (asm) outer_loop.simps) (auto split: sum.splits)
    from h1 have h1_eq: "h1 = h(q + lag \<mapsto> scast (signed_drop_bit 16 acc))" and "q + lag \<in> dom h"
      by (auto simp: store_def split: if_splits)
    then have dom1: "dom h1 = dom h"
      by auto
    from "1.IH" [OF True acc h1 rest]
    have "dom h' = dom h1" and fr: "\<forall>a. \<not> (q + (lag + 1) \<le> a \<and> a < q + sint N) \<longrightarrow> h' a = h1 a"
      by simp_all
    have "h' a = h a" if "\<not> (q + lag \<le> a \<and> a < q + sint N)" for a
    proof -
      from that have "\<not> (q + (lag + 1) \<le> a \<and> a < q + sint N)" and "a \<noteq> q + lag"
        using True by auto
      with fr h1_eq show ?thesis by simp
    qed
    with \<open>dom h' = dom h1\<close> dom1 show ?thesis
      by simp
  qed
qed


text \<open>
  When the store owns \<open>DataSize\<close> input cells and \<open>NumberOfLags\<close> output cells, no
  access of the outer loop leaves it: at lag \<open>lag\<close> the inner loop runs to
  \<open>LastIndex = DataSize - lag\<close>, so that \<open>LastIndex + lag = DataSize\<close>.
\<close>

lemma outer_loop_in_bounds:
  "\<forall>i. 0 \<le> i \<and> i < sint D \<longrightarrow> p + i \<in> dom h \<Longrightarrow>
   \<forall>j. 0 \<le> j \<and> j < sint N \<longrightarrow> q + j \<in> dom h \<Longrightarrow> 0 \<le> lag \<Longrightarrow>
     outer_loop h p q D N S lag \<noteq> Inl OutOfBounds"
proof (induction h p q D N S lag rule: outer_loop.induct)
  case (1 h p q D N S lag)
  show ?case
  proof (cases "lag < sint N")
    case False
    then show ?thesis by (simp add: outer_loop_done)
  next
    case True
    have inner: "inner_loop h p lag S (sint D - lag) 0 0 \<noteq> Inl OutOfBounds"
      using "1.prems"(1,3) by (intro inner_loop_in_bounds [where n = "sint D"]) auto
    show ?thesis
    proof (cases "inner_loop h p lag S (sint D - lag) 0 0")
      case (Inl e)
      with inner True show ?thesis
        by (subst outer_loop.simps) auto
    next
      case (Inr acc)
      let ?h1 = "h(q + lag \<mapsto> scast (signed_drop_bit 16 acc))"
      have "q + lag \<in> dom h"
        using "1.prems"(2,3) True by simp
      then have h1: "store h q lag (scast (signed_drop_bit 16 acc)) = Inr ?h1"
        by (simp add: store_def)
      have "outer_loop ?h1 p q D N S (lag + 1) \<noteq> Inl OutOfBounds"
        using "1.prems" by (intro "1.IH" [OF True Inr h1]) auto
      with True Inr h1 show ?thesis
        by (subst outer_loop.simps) simp
    qed
  qed
qed

text \<open>
  Under the caller's contract the outer loop returns, and each output cell from \<open>lag\<close>
  on holds its coefficient: the writes leave the input as it was, since the arrays do
  not overlap, and a later lag does not write an earlier output cell.
\<close>

lemma outer_loop_values:
  "\<forall>i<nat (sint D). h (p + int i) = Some (xs ! i) \<Longrightarrow>
   \<forall>j. 0 \<le> j \<and> j < sint N \<longrightarrow> q + j \<in> dom h \<Longrightarrow>
   q + sint N \<le> p \<or> p + sint D \<le> q \<Longrightarrow> 0 \<le> lag \<Longrightarrow>
     \<exists>h'. outer_loop h p q D N S lag = Inr h' \<and>
       (\<forall>L. lag \<le> L \<and> L < sint N \<longrightarrow>
          h' (q + L) = Some (word_coefficient xs (nat (sint D)) S (nat L)))"
proof (induction h p q D N S lag rule: outer_loop.induct)
  case (1 h p q D N S lag)
  show ?case
  proof (cases "lag < sint N")
    case False
    then show ?thesis by (auto simp: outer_loop_done)
  next
    case True
    let ?acc = "\<Sum>j\<leftarrow>[0..<nat (sint D) - nat lag]. shifted_term xs S (nat lag) j"
    let ?c = "word_coefficient xs (nat (sint D)) S (nat lag)"
    let ?h1 = "h(q + lag \<mapsto> ?c)"
    have "inner_loop h p lag S (sint D - lag) 0 0 =
        Inr (0 + (\<Sum>j\<leftarrow>[nat 0..<nat (sint D - lag)]. shifted_term xs S (nat lag) j))"
      using "1.prems" by (intro inner_loop_terms [where n = "nat (sint D)"]) auto
    moreover have "nat (sint D - lag) = nat (sint D) - nat lag"
      using "1.prems"(4) by simp
    ultimately have acc: "inner_loop h p lag S (sint D - lag) 0 0 = Inr ?acc"
      by simp
    have msw: "scast (signed_drop_bit 16 ?acc) = ?c"
      by (simp only: word_coefficient_def)
    have "q + lag \<in> dom h"
      using "1.prems"(2,4) True by simp
    then have h1: "store h q lag (scast (signed_drop_bit 16 ?acc)) = Inr ?h1"
      by (simp only: msw) (simp add: store_def)
    have inp1: "\<forall>i<nat (sint D). ?h1 (p + int i) = Some (xs ! i)"
    proof (intro allI impI)
      fix i assume i: "i < nat (sint D)"
      then have "p + int i \<noteq> q + lag"
        using "1.prems"(3,4) True by auto
      with "1.prems"(1) i show "?h1 (p + int i) = Some (xs ! i)"
        by simp
    qed
    have out1: "\<forall>j. 0 \<le> j \<and> j < sint N \<longrightarrow> q + j \<in> dom ?h1"
      using "1.prems"(2) by simp
    have "\<exists>h'. outer_loop ?h1 p q D N S (lag + 1) = Inr h' \<and>
       (\<forall>L. lag + 1 \<le> L \<and> L < sint N \<longrightarrow>
          h' (q + L) = Some (word_coefficient xs (nat (sint D)) S (nat L)))"
      using "1.prems"(3,4) inp1 out1 by (intro "1.IH" [OF True acc h1]) auto
    then obtain h' where rest: "outer_loop ?h1 p q D N S (lag + 1) = Inr h'"
      and vals: "\<forall>L. lag + 1 \<le> L \<and> L < sint N \<longrightarrow>
          h' (q + L) = Some (word_coefficient xs (nat (sint D)) S (nat L))"
      by blast
    have "h' (q + lag) = ?h1 (q + lag)"
      using outer_loop_frame [OF rest] by simp
    then have here: "h' (q + lag) = Some ?c"
      by simp
    have "h' (q + L) = Some (word_coefficient xs (nat (sint D)) S (nat L))"
      if "lag \<le> L \<and> L < sint N" for L
    proof (cases "L = lag")
      case True
      with here show ?thesis by simp
    next
      case False
      with that vals show ?thesis by simp
    qed
    moreover have "outer_loop h p q D N S lag = Inr h'"
      using True acc h1 rest by (subst outer_loop.simps) simp
    ultimately show ?thesis
      by blast
  qed
qed

lemma outer_loop_result:
  "\<forall>i<nat (sint D). h (p + int i) = Some (xs ! i) \<Longrightarrow>
   \<forall>j. 0 \<le> j \<and> j < sint N \<longrightarrow> q + j \<in> dom h \<Longrightarrow>
   q + sint N \<le> p \<or> p + sint D \<le> q \<Longrightarrow>
   0 \<le> sint S \<Longrightarrow> sint S < 32 \<Longrightarrow> 0 \<le> lag \<Longrightarrow>
     \<exists>h'. outer_loop h p q D N S lag = Inr h' \<and>
       (\<forall>L. lag \<le> L \<and> L < sint N \<longrightarrow>
          h' (q + L) = Some (coefficient xs (nat (sint D)) (nat (sint S)) (nat L)))"
  using outer_loop_values [of D h p xs N q lag S]
  by (simp add: word_coefficient_in_range)

text \<open>
  When the input cells hold zero the outer loop returns and writes zero to each output
  cell from \<open>lag\<close> on, for any \<open>Scale\<close> and also when the arrays overlap: a zero
  written into the input leaves it zero.
\<close>

lemma outer_loop_zero:
  "\<forall>i. 0 \<le> i \<and> i < sint D \<longrightarrow> h (p + i) = Some 0 \<Longrightarrow>
   \<forall>j. 0 \<le> j \<and> j < sint N \<longrightarrow> q + j \<in> dom h \<Longrightarrow> 0 \<le> lag \<Longrightarrow>
     \<exists>h'. outer_loop h p q D N S lag = Inr h' \<and>
       (\<forall>L. lag \<le> L \<and> L < sint N \<longrightarrow> h' (q + L) = Some 0)"
proof (induction h p q D N S lag rule: outer_loop.induct)
  case (1 h p q D N S lag)
  show ?case
  proof (cases "lag < sint N")
    case False
    then show ?thesis by (auto simp: outer_loop_done)
  next
    case True
    let ?h1 = "h(q + lag \<mapsto> 0)"
    have acc: "inner_loop h p lag S (sint D - lag) 0 0 = Inr 0"
      using "1.prems"(1,3) by (intro inner_loop_zero [where n = "sint D"]) auto
    have "q + lag \<in> dom h"
      using "1.prems"(2,3) True by simp
    then have h1: "store h q lag (scast (signed_drop_bit 16 (0 :: e_s32))) = Inr ?h1"
      by (simp add: store_def)
    have inp1: "\<forall>i. 0 \<le> i \<and> i < sint D \<longrightarrow> ?h1 (p + i) = Some 0"
      using "1.prems"(1) by simp
    have out1: "\<forall>j. 0 \<le> j \<and> j < sint N \<longrightarrow> q + j \<in> dom ?h1"
      using "1.prems"(2) by simp
    have "\<exists>h'. outer_loop ?h1 p q D N S (lag + 1) = Inr h' \<and>
       (\<forall>L. lag + 1 \<le> L \<and> L < sint N \<longrightarrow> h' (q + L) = Some 0)"
      using "1.prems"(3) inp1 out1 by (intro "1.IH" [OF True acc h1]) auto
    then obtain h' where rest: "outer_loop ?h1 p q D N S (lag + 1) = Inr h'"
      and vals: "\<forall>L. lag + 1 \<le> L \<and> L < sint N \<longrightarrow> h' (q + L) = Some 0"
      by blast
    have "h' (q + lag) = ?h1 (q + lag)"
      using outer_loop_frame [OF rest] by simp
    then have here: "h' (q + lag) = Some 0"
      by simp
    have "h' (q + L) = Some 0" if "lag \<le> L \<and> L < sint N" for L
    proof (cases "L = lag")
      case True
      with here show ?thesis by simp
    next
      case False
      with that vals show ?thesis by simp
    qed
    moreover have "outer_loop h p q D N S lag = Inr h'"
      using True acc h1 rest by (subst outer_loop.simps) simp
    ultimately show ?thesis
      by blast
  qed
qed

text \<open>
  A run up to a lag count \<open>M\<close> is a run up to a smaller count \<open>N\<close>, continued from
  lag \<open>N\<close>.
\<close>

lemma outer_loop_split:
  "lag \<le> sint N \<Longrightarrow> sint N \<le> sint M \<Longrightarrow>
     outer_loop h p q D M S lag =
       (case outer_loop h p q D N S lag of
          Inl e \<Rightarrow> Inl e
        | Inr h1 \<Rightarrow> outer_loop h1 p q D M S (sint N))"
proof (induction h p q D N S lag rule: outer_loop.induct)
  case (1 h p q D N S lag)
  show ?case
  proof (cases "lag < sint N")
    case False
    with "1.prems" have "lag = sint N" by simp
    then show ?thesis by (simp add: outer_loop_done)
  next
    case True
    then have M: "lag < sint M" using "1.prems" by simp
    show ?thesis
    proof (cases "inner_loop h p lag S (sint D - lag) 0 0")
      case (Inl e)
      then show ?thesis
        using True M by (subst outer_loop.simps, subst (2) outer_loop.simps) simp
    next
      case acc: (Inr acc)
      show ?thesis
      proof (cases "store h q lag (scast (signed_drop_bit 16 acc))")
        case (Inl e)
        then show ?thesis
          using True M acc by (subst outer_loop.simps, subst (2) outer_loop.simps) simp
      next
        case (Inr h1)
        have "outer_loop h1 p q D M S (lag + 1) =
            (case outer_loop h1 p q D N S (lag + 1) of
               Inl e \<Rightarrow> Inl e
             | Inr h2 \<Rightarrow> outer_loop h2 p q D M S (sint N))"
          using True "1.prems" by (intro "1.IH" [OF True acc Inr]) auto
        then show ?thesis
          using True M acc Inr by (subst outer_loop.simps, subst (2) outer_loop.simps) simp
      qed
    qed
  qed
qed

section \<open>A call under the caller's contract\<close>

lemma holds_at_nth:
  assumes "holds_at h p xs" "i < length xs"
  shows "h (p + int i) = Some (xs ! i)"
proof -
  have "read_array h p (length xs) ! i = map Some xs ! i"
    using assms(1) by (simp add: holds_at_def)
  with assms(2) show ?thesis
    by (simp add: read_array_def)
qed

lemma allocated_iff: "allocated h p n \<longleftrightarrow> (\<forall>i<n. h (p + int i) \<noteq> None)"
  by (auto simp: allocated_def list_all_iff)

lemma allocated_dom:
  assumes "allocated h p n" "0 \<le> j" "j < int n"
  shows "p + j \<in> dom h"
proof -
  have "nat j < n" using assms(2,3) by simp
  with assms(1) have "h (p + int (nat j)) \<noteq> None"
    unfolding allocated_iff by blast
  with assms(2) show ?thesis
    by (simp add: domIff)
qed

lemma read_array_eqI:
  "(\<And>i. i < n \<Longrightarrow> h (p + int i) = h' (p' + int i)) \<Longrightarrow> read_array h p n = read_array h' p' n"
  by (simp add: read_array_def)

lemma fxp_contract:
  assumes inp: "holds_at h p xs" and len: "sint D \<le> int (length xs)"
    and out: "allocated h q (nat (sint N))"
    and sep: "separate p (sint D) q (sint N)"
  shows "\<exists>h'. fxpAutoCorrelation h p q D N S = Inr h' \<and>
      (\<forall>L<nat (sint N). h' (q + int L) = Some (word_coefficient xs (nat (sint D)) S L))"
proof -
  have cells: "\<forall>i<nat (sint D). h (p + int i) = Some (xs ! i)"
    using holds_at_nth [OF inp] len by auto
  have slots: "\<forall>j. 0 \<le> j \<and> j < sint N \<longrightarrow> q + j \<in> dom h"
    using allocated_dom [OF out] by auto
  from sep have "q + sint N \<le> p \<or> p + sint D \<le> q"
    by (simp add: separate_def)
  from outer_loop_values [OF cells slots this, of 0 S]
  obtain h' where h': "outer_loop h p q D N S 0 = Inr h'"
    and vals: "\<forall>L. 0 \<le> L \<and> L < sint N \<longrightarrow>
       h' (q + L) = Some (word_coefficient xs (nat (sint D)) S (nat L))"
    by auto
  have "h' (q + int L) = Some (word_coefficient xs (nat (sint D)) S L)"
    if "L < nat (sint N)" for L
    using vals [rule_format, of "int L"] that by simp
  with h' show ?thesis
    by (simp add: fxpAutoCorrelation_def)
qed

lemma fxp_valid_call:
  assumes inp: "holds_at h p xs" and len: "sint D \<le> int (length xs)"
    and out: "allocated h q (nat (sint N))"
    and sep: "separate p (sint D) q (sint N)"
    and sc: "0 \<le> sint S" "sint S < 32"
  shows "\<exists>h'. fxpAutoCorrelation h p q D N S = Inr h' \<and>
      (\<forall>L<nat (sint N). h' (q + int L) = Some (coefficient xs (nat (sint D)) (nat (sint S)) L))"
  using fxp_contract [OF inp len out sep, of S] by (simp add: word_coefficient_in_range [OF sc])

lemma fxp_zero_input:
  assumes inp: "holds_at h p xs" and len: "sint D \<le> int (length xs)"
    and out: "allocated h q (nat (sint N))"
    and zero: "\<forall>i<nat (sint D). xs ! i = 0"
  shows "\<exists>h'. fxpAutoCorrelation h p q D N S = Inr h' \<and>
      (\<forall>L<nat (sint N). h' (q + int L) = Some 0)"
proof -
  have cells: "\<forall>i. 0 \<le> i \<and> i < sint D \<longrightarrow> h (p + i) = Some 0"
  proof (intro allI impI)
    fix i :: int assume i: "0 \<le> i \<and> i < sint D"
    then have "nat i < length xs" "nat i < nat (sint D)"
      using len by linarith+
    with holds_at_nth [OF inp, of "nat i"] zero i show "h (p + i) = Some 0"
      by simp
  qed
  have slots: "\<forall>j. 0 \<le> j \<and> j < sint N \<longrightarrow> q + j \<in> dom h"
    using allocated_dom [OF out] by auto
  from outer_loop_zero [OF cells slots, of 0 S]
  obtain h' where h': "outer_loop h p q D N S 0 = Inr h'"
    and vals: "\<forall>L. 0 \<le> L \<and> L < sint N \<longrightarrow> h' (q + L) = Some 0"
    by auto
  have "h' (q + int L) = Some 0" if "L < nat (sint N)" for L
    using vals [rule_format, of "int L"] that by simp
  with h' show ?thesis
    by (simp add: fxpAutoCorrelation_def)
qed

lemma read_array_3: "read_array h q 3 = [h (q + int 0), h (q + int 1), h (q + int 2)]"
  by (simp add: read_array_def numeral_3_eq_3 upt_rec)

section \<open>The kernel at scale 0 and the reference variant\<close>

lemma coefficient_scale_0: "coefficient xs D 0 L = unshifted_coefficient xs D L"
proof -
  have "(scast (xs ! i) * scast (xs ! (i + L)) :: e_s32) = word_of_int (scaled_product xs 0 L i)" for i
    using shifted_product [of 0 "xs ! i" "xs ! (i + L)"] by (simp add: scaled_product_def)
  then have "(\<Sum>i\<leftarrow>[0..<D - L]. (scast (xs ! i) * scast (xs ! (i + L)) :: e_s32)) =
      word_of_int (lag_sum xs D 0 L)"
    by (simp add: lag_sum_def word_of_int_sum_list)
  then show ?thesis
    by (simp only: unshifted_coefficient_def msw_of_int coefficient_def)
qed

section \<open>The lag-0 sum bounds every other lag at scale 0\<close>

lemma cross_term_bounds:
  fixes a b :: int
  shows "2 * (a * b) \<le> a * a + b * b" and "- (a * a + b * b) \<le> 2 * (a * b)"
proof -
  have "0 \<le> (a - b) * (a - b)" "0 \<le> (a + b) * (a + b)"
    by simp_all
  then show "2 * (a * b) \<le> a * a + b * b" and "- (a * a + b * b) \<le> 2 * (a * b)"
    by (simp_all add: algebra_simps)
qed

lemma shifted_squares_le:
  fixes f :: "nat \<Rightarrow> int"
  shows "(\<Sum>i<n - L. f (i + L) * f (i + L)) \<le> (\<Sum>i<n. f i * f i)"
proof -
  have "(\<Sum>i<n - L. f (i + L) * f (i + L)) = (\<Sum>i\<in>{0 + L..<(n - L) + L}. f i * f i)"
    by (simp only: sum.shift_bounds_nat_ivl atLeast0LessThan)
  also have "\<dots> \<le> (\<Sum>i<n. f i * f i)"
    by (intro sum_mono2) auto
  finally show ?thesis .
qed

lemma leading_squares_le:
  fixes f :: "nat \<Rightarrow> int"
  shows "(\<Sum>i<n - L. f i * f i) \<le> (\<Sum>i<n. f i * f i)"
  by (intro sum_mono2) auto

lemma lag_products_le_squares:
  fixes f :: "nat \<Rightarrow> int"
  shows "\<bar>\<Sum>i<n - L. f i * f (i + L)\<bar> \<le> (\<Sum>i<n. f i * f i)"
proof -
  let ?P = "\<Sum>i<n - L. f i * f (i + L)"
  let ?A = "\<Sum>i<n - L. f i * f i"
  let ?B = "\<Sum>i<n - L. f (i + L) * f (i + L)"
  let ?E = "\<Sum>i<n. f i * f i"
  have "2 * ?P = (\<Sum>i<n - L. 2 * (f i * f (i + L)))"
    by (simp add: sum_distrib_left)
  also have "\<dots> \<le> (\<Sum>i<n - L. f i * f i + f (i + L) * f (i + L))"
    by (intro sum_mono cross_term_bounds)
  also have "\<dots> = ?A + ?B"
    by (simp add: sum.distrib)
  finally have up: "2 * ?P \<le> ?A + ?B" .
  have "- (?A + ?B) = - (\<Sum>i<n - L. f i * f i + f (i + L) * f (i + L))"
    by (simp add: sum.distrib)
  also have "\<dots> = (\<Sum>i<n - L. - (f i * f i + f (i + L) * f (i + L)))"
    by (simp only: sum_negf)
  also have "\<dots> \<le> (\<Sum>i<n - L. 2 * (f i * f (i + L)))"
    by (intro sum_mono cross_term_bounds)
  also have "\<dots> = 2 * ?P"
    by (simp add: sum_distrib_left)
  finally have low: "- (?A + ?B) \<le> 2 * ?P" .
  have "?A \<le> ?E" "?B \<le> ?E"
    by (rule leading_squares_le, rule shifted_squares_le)
  with up low show ?thesis
    by linarith
qed

lemma lag_sum_scale_0:
  "lag_sum xs D 0 L = (\<Sum>i<D - L. sint (xs ! i) * sint (xs ! (i + L)))"
  by (simp add: lag_sum_def scaled_product_def interv_sum_list_conv_sum_set_nat atLeast0LessThan)

lemma lag_sum_le_energy: "\<bar>lag_sum xs D 0 L\<bar> \<le> lag_sum xs D 0 0"
  using lag_products_le_squares [where n = D and L = L and f = "\<lambda>i. sint (xs ! i)"]
  by (simp add: lag_sum_scale_0)

lemma sint_coefficient:
  assumes "- 2147483648 \<le> lag_sum xs D s L" "lag_sum xs D s L < 2147483648"
  shows "sint (coefficient xs D s L) = lag_sum xs D s L div 65536"
proof -
  from assms have "signed_take_bit 31 (lag_sum xs D s L) = lag_sum xs D s L"
    by (intro signed_take_bit_int_eq_self) auto
  moreover from assms have "- 32768 \<le> lag_sum xs D s L div 65536" "lag_sum xs D s L div 65536 < 32768"
    by simp_all
  then have "signed_take_bit 15 (lag_sum xs D s L div 65536) = lag_sum xs D s L div 65536"
    by (intro signed_take_bit_int_eq_self) auto
  ultimately show ?thesis
    by (simp add: coefficient_def sint_sbintrunc')
qed

lemma coefficient_within_energy:
  assumes "lag_sum xs D 0 0 < 2147483648"
  shows "- sint (coefficient xs D 0 0) - 1 \<le> sint (coefficient xs D 0 L) \<and>
     sint (coefficient xs D 0 L) \<le> sint (coefficient xs D 0 0)"
proof -
  let ?E = "lag_sum xs D 0 0" and ?P = "lag_sum xs D 0 L"
  have b: "- ?E \<le> ?P" "?P \<le> ?E"
    using lag_sum_le_energy [of xs D L] by simp_all
  then have "0 \<le> ?E" by simp
  have e: "sint (coefficient xs D 0 0) = ?E div 65536"
    using assms \<open>0 \<le> ?E\<close> by (intro sint_coefficient) simp_all
  have p: "sint (coefficient xs D 0 L) = ?P div 65536"
    using assms b by (intro sint_coefficient) simp_all
  have "- (?E div 65536) - 1 \<le> (- ?E) div 65536"
    by (simp add: zdiv_zminus1_eq_if)
  also have "\<dots> \<le> ?P div 65536"
    using b(1) by (intro zdiv_mono1) simp_all
  finally have "- (?E div 65536) - 1 \<le> ?P div 65536" .
  moreover have "?P div 65536 \<le> ?E div 65536"
    using b(2) by (intro zdiv_mono1) simp_all
  ultimately show ?thesis
    unfolding e p by simp
qed

section \<open>The claims\<close>

text \<open>
  Claim C1, as amended. The store holds a sample sequence \<open>xs\<close> of at least
  \<open>DataSize\<close> elements at \<open>InputData\<close>, the \<open>NumberOfLags\<close> output cells belong to
  the store and do not overlap the input, \<open>0 \<le> NumberOfLags < DataSize\<close> and
  \<open>0 \<le> Scale < 32\<close>. Then the call returns, and for every lag \<open>L < NumberOfLags\<close>
  the output cell \<open>L\<close> holds the 16-bit two's-complement truncation of the arithmetic
  right shift by 16 of the 32-bit accumulator: the sum, wrapped to 32 bits, over
  \<open>i = 0 .. DataSize - L - 1\<close> of the products \<open>xs[i] * xs[i + L]\<close>, each divided by
  \<open>2 ^ Scale\<close> rounding down before it is added.
\<close>

theorem lag_coefficient:
  assumes "holds_at h InputData xs" and "sint DataSize \<le> int (length xs)"
    and "allocated h AutoCorrData (nat (sint NumberOfLags))"
    and "separate InputData (sint DataSize) AutoCorrData (sint NumberOfLags)"
    and "0 \<le> sint NumberOfLags" and "sint NumberOfLags < sint DataSize"
    and "0 \<le> sint Scale" and "sint Scale < 32"
    and "L < nat (sint NumberOfLags)"
  shows "\<exists>h'. fxpAutoCorrelation h InputData AutoCorrData DataSize NumberOfLags Scale = Inr h' \<and>
     h' (AutoCorrData + int L) =
       Some (word_of_int
         (signed_take_bit 31
            (\<Sum>i\<leftarrow>[0..<nat (sint DataSize) - L].
                sint (xs ! i) * sint (xs ! (i + L)) div 2 ^ nat (sint Scale))
          div 2 ^ 16))"
  using fxp_valid_call [OF assms(1,2,3,4,7,8)] assms(9)
  by (auto simp: coefficient_def lag_sum_def scaled_product_def)

text \<open>
  The amended claim at the concrete scenario: lag 1 of the samples 4, 2, 1, -3, 5.
\<close>

theorem lag_coefficient_witness:
  "\<exists>h'. fxpAutoCorrelation scenario_store 0 10 5 3 0 = Inr h' \<and> h' (10 + int 1) = Some (- 1)"
proof -
  have "holds_at scenario_store 0 [4, 2, 1, - 3, 5]"
    and "sint (5 :: e_s16) \<le> int (length [4, 2, 1, - 3, 5 :: e_s16])"
    and "allocated scenario_store 10 (nat (sint (3 :: e_s16)))"
    and "separate 0 (sint (5 :: e_s16)) 10 (sint (3 :: e_s16))"
    and "0 \<le> sint (3 :: e_s16)" and "sint (3 :: e_s16) < sint (5 :: e_s16)"
    and "0 \<le> sint (0 :: e_s16)" and "sint (0 :: e_s16) < 32"
    and "1 < nat (sint (3 :: e_s16))"
    by code_simp+
  from lag_coefficient [OF this]
  obtain h' where "fxpAutoCorrelation scenario_store 0 10 5 3 0 = Inr h'"
    and "h' (10 + int 1) =
       Some (word_of_int
         (signed_take_bit 31
            (\<Sum>i\<leftarrow>[0..<nat (sint (5 :: e_s16)) - 1].
                sint ([4, 2, 1, - 3, 5 :: e_s16] ! i) * sint ([4, 2, 1, - 3, 5 :: e_s16] ! (i + 1))
                  div 2 ^ nat (sint (0 :: e_s16)))
          div 2 ^ 16))"
    by blast
  moreover have "(word_of_int
         (signed_take_bit 31
            (\<Sum>i\<leftarrow>[0..<nat (sint (5 :: e_s16)) - 1].
                sint ([4, 2, 1, - 3, 5 :: e_s16] ! i) * sint ([4, 2, 1, - 3, 5 :: e_s16] ! (i + 1))
                  div 2 ^ nat (sint (0 :: e_s16)))
          div 2 ^ 16) :: e_s16) = - 1"
    by code_simp
  ultimately show ?thesis
    by simp
qed

text \<open>
  Claim C1 as stated lets \<open>Scale\<close> be any non-negative count. At \<open>Scale = 32\<close> and two
  samples of 256 each product is 65536 and its quotient by \<open>2 ^ 32\<close> is 0, so that the
  claimed output at lag 0 is 0; the kernel shifts by the low five bits of the count,
  which are 0, accumulates 131072 and stores 2.
\<close>

theorem lag_coefficient_counterexample:
  "outcome (fxpAutoCorrelation loud_store 0 10 2 1 32) 10 1 = Inr [Some 2] \<and>
   (word_of_int
      (signed_take_bit 31
         (\<Sum>i\<leftarrow>[0..<nat (sint (2 :: e_s16)) - 0].
             sint ([256, 256 :: e_s16] ! i) * sint ([256, 256 :: e_s16] ! (i + 0))
               div 2 ^ nat (sint (32 :: e_s16)))
       div 2 ^ 16) :: e_s16) = 0"
  by code_simp

text \<open>
  Claim C2. Wherever a store holds the samples 4, 2, 1, -3, 5 and three output cells
  apart from them, the call with \<open>DataSize = 5\<close>, \<open>NumberOfLags = 3\<close> and
  \<open>Scale = 0\<close> leaves the inner loop with the accumulators 55, -8 and 3 for the lags
  0, 1 and 2, and writes the output sequence 0, -1, 0.
\<close>

theorem concrete_scenario:
  assumes "holds_at h InputData [4, 2, 1, - 3, 5]"
    and "allocated h AutoCorrData 3"
    and "separate InputData 5 AutoCorrData 3"
  shows "inner_loop h InputData 0 0 (5 - 0) 0 0 = Inr 55 \<and>
         inner_loop h InputData 1 0 (5 - 1) 0 0 = Inr (- 8) \<and>
         inner_loop h InputData 2 0 (5 - 2) 0 0 = Inr 3 \<and>
         outcome (fxpAutoCorrelation h InputData AutoCorrData 5 3 0) AutoCorrData 3 =
           Inr [Some 0, Some (- 1), Some 0]"
proof -
  let ?xs = "[4, 2, 1, - 3, 5] :: e_s16 list"
  have cells: "\<forall>j<5. h (InputData + int j) = Some (?xs ! j)"
    using holds_at_nth [OF assms(1)] by simp
  have sc: "0 \<le> sint (0 :: e_s16)" "sint (0 :: e_s16) < 32"
    by simp_all
  have acc: "inner_loop h InputData lag 0 (5 - lag) 0 0 =
      Inr (0 + word_of_int (\<Sum>j\<leftarrow>[nat 0..<nat (5 - lag)].
             scaled_product ?xs (nat (sint (0 :: e_s16))) (nat lag) j))"
    if "0 \<le> lag" for lag
    using that by (intro inner_loop_sum [OF cells _ sc]) simp_all
  have a0: "inner_loop h InputData 0 0 (5 - 0) 0 0 = Inr 55"
  proof -
    have "(0 + word_of_int (\<Sum>j\<leftarrow>[nat 0..<nat (5 - 0)].
             scaled_product ?xs (nat (sint (0 :: e_s16))) (nat 0) j) :: e_s32) = 55"
      by code_simp
    with acc [of 0] show ?thesis by simp
  qed
  have a1: "inner_loop h InputData 1 0 (5 - 1) 0 0 = Inr (- 8)"
  proof -
    have "(0 + word_of_int (\<Sum>j\<leftarrow>[nat 0..<nat (5 - 1)].
             scaled_product ?xs (nat (sint (0 :: e_s16))) (nat 1) j) :: e_s32) = - 8"
      by code_simp
    with acc [of 1] show ?thesis by simp
  qed
  have a2: "inner_loop h InputData 2 0 (5 - 2) 0 0 = Inr 3"
  proof -
    have "(0 + word_of_int (\<Sum>j\<leftarrow>[nat 0..<nat (5 - 2)].
             scaled_product ?xs (nat (sint (0 :: e_s16))) (nat 2) j) :: e_s32) = 3"
      by code_simp
    with acc [of 2] show ?thesis by simp
  qed
  have pre: "sint (5 :: e_s16) \<le> int (length ?xs)"
    "allocated h AutoCorrData (nat (sint (3 :: e_s16)))"
    "separate InputData (sint (5 :: e_s16)) AutoCorrData (sint (3 :: e_s16))"
    using assms(2,3) by simp_all
  from fxp_valid_call [OF assms(1) pre sc]
  obtain h' where h': "fxpAutoCorrelation h InputData AutoCorrData 5 3 0 = Inr h'"
    and vals: "\<forall>L<nat (sint (3 :: e_s16)).
      h' (AutoCorrData + int L) = Some (coefficient ?xs (nat (sint (5 :: e_s16))) (nat (sint (0 :: e_s16))) L)"
    by blast
  have c: "coefficient ?xs (nat (sint (5 :: e_s16))) (nat (sint (0 :: e_s16))) 0 = 0"
    "coefficient ?xs (nat (sint (5 :: e_s16))) (nat (sint (0 :: e_s16))) 1 = - 1"
    "coefficient ?xs (nat (sint (5 :: e_s16))) (nat (sint (0 :: e_s16))) 2 = 0"
    by code_simp+
  have "h' (AutoCorrData + int 0) = Some 0" "h' (AutoCorrData + int 1) = Some (- 1)"
    "h' (AutoCorrData + int 2) = Some 0"
    using vals [rule_format, of 0] vals [rule_format, of 1] vals [rule_format, of 2] c
    by simp_all
  then have "read_array h' AutoCorrData 3 = [Some 0, Some (- 1), Some 0]"
    by (simp only: read_array_3)
  with h' a0 a1 a2 show ?thesis
    by (simp add: outcome_def)
qed

theorem concrete_scenario_witness:
  "outcome (fxpAutoCorrelation scenario_store 0 10 5 3 0) 10 3 = Inr [Some 0, Some (- 1), Some 0]"
proof -
  have "holds_at scenario_store 0 [4, 2, 1, - 3, 5]"
    and "allocated scenario_store 10 3"
    and "separate 0 5 10 3"
    by code_simp+
  from concrete_scenario [OF this] show ?thesis
    by simp
qed

text \<open>
  Claim C3, as amended. Under the contract of claim C1 with at least one lag, the call
  returns and output cell 0 holds the scaled, truncated sum of the squares of all
  \<open>DataSize\<close> samples. When moreover \<open>Scale = 0\<close> and the sum of squares is below
  \<open>2 ^ 31\<close>, so that the accumulator does not wrap, every output \<open>c\<close> lies between
  \<open>- c0 - 1\<close> and \<open>c0\<close>, where \<open>c0\<close> is output 0: no output is larger than the
  lag-0 output, and the shift, which rounds down, lets a negative one exceed it in
  magnitude by one.
\<close>

theorem energy_term:
  assumes "holds_at h InputData xs" and "sint DataSize \<le> int (length xs)"
    and "allocated h AutoCorrData (nat (sint NumberOfLags))"
    and "separate InputData (sint DataSize) AutoCorrData (sint NumberOfLags)"
    and "0 < sint NumberOfLags" and "sint NumberOfLags < sint DataSize"
    and "0 \<le> sint Scale" and "sint Scale < 32"
  shows "\<exists>h' c0. fxpAutoCorrelation h InputData AutoCorrData DataSize NumberOfLags Scale = Inr h' \<and>
     h' AutoCorrData = Some c0 \<and>
     c0 = word_of_int
            (signed_take_bit 31
               (\<Sum>i\<leftarrow>[0..<nat (sint DataSize)].
                   sint (xs ! i) * sint (xs ! i) div 2 ^ nat (sint Scale))
             div 2 ^ 16) \<and>
     (sint Scale = 0 \<and>
      (\<Sum>i\<leftarrow>[0..<nat (sint DataSize)]. sint (xs ! i) * sint (xs ! i)) < 2 ^ 31 \<longrightarrow>
        (\<forall>L<nat (sint NumberOfLags). \<exists>cL.
            h' (AutoCorrData + int L) = Some cL \<and>
            - sint c0 - 1 \<le> sint cL \<and> sint cL \<le> sint c0))"
proof -
  let ?D = "nat (sint DataSize)" and ?s = "nat (sint Scale)"
  from fxp_valid_call [OF assms(1,2,3,4,7,8)]
  obtain h' where h': "fxpAutoCorrelation h InputData AutoCorrData DataSize NumberOfLags Scale = Inr h'"
    and vals: "\<forall>L<nat (sint NumberOfLags). h' (AutoCorrData + int L) = Some (coefficient xs ?D ?s L)"
    by blast
  have "0 < nat (sint NumberOfLags)"
    using assms(5) by simp
  with vals have "h' (AutoCorrData + int 0) = Some (coefficient xs ?D ?s 0)"
    by blast
  then have c0: "h' AutoCorrData = Some (coefficient xs ?D ?s 0)"
    by simp
  have formula: "coefficient xs ?D ?s 0 =
      word_of_int (signed_take_bit 31
        (\<Sum>i\<leftarrow>[0..<?D]. sint (xs ! i) * sint (xs ! i) div 2 ^ ?s) div 2 ^ 16)"
    by (simp add: coefficient_def lag_sum_def scaled_product_def)
  have bound: "\<exists>cL. h' (AutoCorrData + int L) = Some cL \<and>
      - sint (coefficient xs ?D ?s 0) - 1 \<le> sint cL \<and> sint cL \<le> sint (coefficient xs ?D ?s 0)"
    if z: "sint Scale = 0"
      and small: "(\<Sum>i\<leftarrow>[0..<?D]. sint (xs ! i) * sint (xs ! i)) < 2 ^ 31"
      and L: "L < nat (sint NumberOfLags)" for L
  proof -
    from z have s0: "?s = 0" by simp
    from small have "lag_sum xs ?D 0 0 < 2147483648"
      by (simp add: lag_sum_def scaled_product_def)
    from coefficient_within_energy [OF this, of L] vals L show ?thesis
      by (simp add: s0)
  qed
  from h' c0 formula bound show ?thesis
    by blast
qed

theorem energy_term_witness:
  "\<exists>h' c0 c1. fxpAutoCorrelation scenario_store 0 10 5 3 0 = Inr h' \<and>
     h' 10 = Some c0 \<and> h' (10 + int 1) = Some c1 \<and>
     - sint c0 - 1 \<le> sint c1 \<and> sint c1 \<le> sint c0"
proof -
  have "holds_at scenario_store 0 [4, 2, 1, - 3, 5]"
    and "sint (5 :: e_s16) \<le> int (length [4, 2, 1, - 3, 5 :: e_s16])"
    and "allocated scenario_store 10 (nat (sint (3 :: e_s16)))"
    and "separate 0 (sint (5 :: e_s16)) 10 (sint (3 :: e_s16))"
    and "0 < sint (3 :: e_s16)" and "sint (3 :: e_s16) < sint (5 :: e_s16)"
    and "0 \<le> sint (0 :: e_s16)" and "sint (0 :: e_s16) < 32"
    by code_simp+
  from energy_term [OF this]
  obtain h' c0 where h': "fxpAutoCorrelation scenario_store 0 10 5 3 0 = Inr h'"
    and c0: "h' 10 = Some c0"
    and imp: "sint (0 :: e_s16) = 0 \<and>
      (\<Sum>i\<leftarrow>[0..<nat (sint (5 :: e_s16))].
          sint ([4, 2, 1, - 3, 5 :: e_s16] ! i) * sint ([4, 2, 1, - 3, 5 :: e_s16] ! i)) < 2 ^ 31 \<longrightarrow>
        (\<forall>L<nat (sint (3 :: e_s16)). \<exists>cL.
            h' (10 + int L) = Some cL \<and> - sint c0 - 1 \<le> sint cL \<and> sint cL \<le> sint c0)"
    by blast
  have "sint (0 :: e_s16) = 0 \<and>
      (\<Sum>i\<leftarrow>[0..<nat (sint (5 :: e_s16))].
          sint ([4, 2, 1, - 3, 5 :: e_s16] ! i) * sint ([4, 2, 1, - 3, 5 :: e_s16] ! i)) < 2 ^ 31"
    by code_simp
  with imp have "\<forall>L<nat (sint (3 :: e_s16)). \<exists>cL.
      h' (10 + int L) = Some cL \<and> - sint c0 - 1 \<le> sint cL \<and> sint cL \<le> sint c0"
    by blast
  moreover have "1 < nat (sint (3 :: e_s16))"
    by simp
  ultimately obtain c1 where "h' (10 + int 1) = Some c1" "- sint c0 - 1 \<le> sint c1" "sint c1 \<le> sint c0"
    by blast
  with h' c0 show ?thesis
    by blast
qed

text \<open>
  Claim C3 as stated has output 0 largest in magnitude. In the scenario of claim C2, a
  valid call on samples that are not all zero, the outputs are 0, -1, 0: output 1 has
  magnitude 1 and output 0 has magnitude 0.
\<close>

theorem energy_term_counterexample:
  "outcome (fxpAutoCorrelation scenario_store 0 10 5 3 0) 10 3 = Inr [Some 0, Some (- 1), Some 0] \<and>
   \<not> \<bar>sint (- 1 :: e_s16)\<bar> \<le> \<bar>sint (0 :: e_s16)\<bar>"
  by code_simp

text \<open>
  Where the accumulator wraps, no such bound is left: four samples of -32768 have the
  sum of squares \<open>2 ^ 32\<close>, which wraps to 0, and the lag-1 sum \<open>3 * 2 ^ 30\<close>, which
  wraps to \<open>- (2 ^ 30)\<close>.
\<close>

lemma energy_term_wraps:
  "outcome (fxpAutoCorrelation saturated_store 0 10 4 2 0) 10 2 = Inr [Some 0, Some (- 16384)]"
  by code_simp

text \<open>
  Claim C4. When \<open>0 \<le> NumberOfLags < DataSize\<close>, the store holds the input sequence
  and owns the output cells, and the \<open>DataSize\<close> samples are all zero, the call returns
  and each of the \<open>NumberOfLags\<close> output cells holds exactly zero: for every \<open>Scale\<close>,
  the non-negative ones among them, since a shift of zero is zero by any count.
\<close>

theorem zero_input_zero_output:
  assumes "holds_at h InputData xs" and "sint DataSize \<le> int (length xs)"
    and "allocated h AutoCorrData (nat (sint NumberOfLags))"
    and "0 \<le> sint NumberOfLags" and "sint NumberOfLags < sint DataSize"
    and "\<forall>i<nat (sint DataSize). xs ! i = 0"
  shows "\<exists>h'. fxpAutoCorrelation h InputData AutoCorrData DataSize NumberOfLags Scale = Inr h' \<and>
     (\<forall>L<nat (sint NumberOfLags). h' (AutoCorrData + int L) = Some 0)"
  using fxp_zero_input [OF assms(1,2,3,6)] by simp

text \<open>
  Two zero samples with one lag, at the counts 0, 31 and 32.
\<close>

theorem zero_input_zero_output_witness:
  "outcome (fxpAutoCorrelation silent_store 0 10 2 1 0) 10 1 = Inr [Some 0] \<and>
   outcome (fxpAutoCorrelation silent_store 0 10 2 1 31) 10 1 = Inr [Some 0] \<and>
   outcome (fxpAutoCorrelation silent_store 0 10 2 1 32) 10 1 = Inr [Some 0]"
proof -
  have pre: "holds_at silent_store 0 [0, 0]"
    "sint (2 :: e_s16) \<le> int (length [0, 0 :: e_s16])"
    "allocated silent_store 10 (nat (sint (1 :: e_s16)))"
    "0 \<le> sint (1 :: e_s16)" "sint (1 :: e_s16) < sint (2 :: e_s16)"
    by code_simp+
  have zero: "\<forall>i<nat (sint (2 :: e_s16)). [0, 0 :: e_s16] ! i = 0"
    by (simp add: nth_Cons split: nat.split)
  have "outcome (fxpAutoCorrelation silent_store 0 10 2 1 Scale) 10 1 = Inr [Some 0]" for Scale
  proof -
    from zero_input_zero_output [OF pre zero, of Scale]
    obtain h' where "fxpAutoCorrelation silent_store 0 10 2 1 Scale = Inr h'"
      and "\<forall>L<nat (sint (1 :: e_s16)). h' (10 + int L) = Some 0"
      by blast
    then show ?thesis
      by (simp add: outcome_def read_array_def)
  qed
  then show ?thesis
    by simp
qed

text \<open>
  Claim C5. On every valid call with \<open>Scale = 0\<close> the kernel writes the output
  sequence of the reference variant, which multiplies the sample pairs in the 32-bit
  signed domain and sums the unshifted products before the final 16-bit extraction.
\<close>

theorem scale_zero_is_unshifted:
  assumes "holds_at h InputData xs" and "sint DataSize \<le> int (length xs)"
    and "allocated h AutoCorrData (nat (sint NumberOfLags))"
    and "separate InputData (sint DataSize) AutoCorrData (sint NumberOfLags)"
    and "0 \<le> sint NumberOfLags" and "sint NumberOfLags < sint DataSize"
  shows "outcome (fxpAutoCorrelation h InputData AutoCorrData DataSize NumberOfLags 0)
             AutoCorrData (nat (sint NumberOfLags)) =
           Inr (map Some (unshifted_autocorrelation xs (nat (sint DataSize)) (nat (sint NumberOfLags))))"
proof -
  have sc: "0 \<le> sint (0 :: e_s16)" "sint (0 :: e_s16) < 32"
    by simp_all
  from fxp_valid_call [OF assms(1,2,3,4) sc]
  obtain h' where h': "fxpAutoCorrelation h InputData AutoCorrData DataSize NumberOfLags 0 = Inr h'"
    and vals: "\<forall>L<nat (sint NumberOfLags). h' (AutoCorrData + int L) =
       Some (coefficient xs (nat (sint DataSize)) (nat (sint (0 :: e_s16))) L)"
    by blast
  have "read_array h' AutoCorrData (nat (sint NumberOfLags)) =
      map Some (unshifted_autocorrelation xs (nat (sint DataSize)) (nat (sint NumberOfLags)))"
    using vals
    by (simp add: read_array_def unshifted_autocorrelation_def coefficient_scale_0)
  with h' show ?thesis
    by (simp add: outcome_def)
qed

theorem scale_zero_is_unshifted_witness:
  "outcome (fxpAutoCorrelation scenario_store 0 10 5 3 0) 10 3 =
     Inr (map Some (unshifted_autocorrelation [4, 2, 1, - 3, 5] 5 3)) \<and>
   unshifted_autocorrelation [4, 2, 1, - 3, 5] 5 3 = [0, - 1, 0]"
proof -
  have "holds_at scenario_store 0 [4, 2, 1, - 3, 5]"
    and "sint (5 :: e_s16) \<le> int (length [4, 2, 1, - 3, 5 :: e_s16])"
    and "allocated scenario_store 10 (nat (sint (3 :: e_s16)))"
    and "separate 0 (sint (5 :: e_s16)) 10 (sint (3 :: e_s16))"
    and "0 \<le> sint (3 :: e_s16)" and "sint (3 :: e_s16) < sint (5 :: e_s16)"
    by code_simp+
  from scale_zero_is_unshifted [OF this]
  have "outcome (fxpAutoCorrelation scenario_store 0 10 5 3 0) 10 3 =
     Inr (map Some (unshifted_autocorrelation [4, 2, 1, - 3, 5] 5 3))"
    by simp
  moreover have "unshifted_autocorrelation [4, 2, 1, - 3, 5] 5 3 = [0, - 1, 0]"
    by code_simp
  ultimately show ?thesis
    by simp
qed

text \<open>
  Claim C6. Two invocations that are given the same sample sequence and the same
  \<open>DataSize\<close>, \<open>NumberOfLags\<close> and \<open>Scale\<close>, each under the caller's contract, make
  the same thing observable: the same fault, or output sequences that are equal element
  for element. The two stores may differ everywhere else, the arrays may lie at
  different addresses, and the output cells may start with different contents. (Two
  invocations in one store with the same pointers are two applications of one function.)
\<close>

theorem deterministic_output:
  assumes "holds_at h1 InputData1 xs" and "holds_at h2 InputData2 xs"
    and "sint DataSize \<le> int (length xs)"
    and "allocated h1 AutoCorrData1 (nat (sint NumberOfLags))"
    and "allocated h2 AutoCorrData2 (nat (sint NumberOfLags))"
    and "separate InputData1 (sint DataSize) AutoCorrData1 (sint NumberOfLags)"
    and "separate InputData2 (sint DataSize) AutoCorrData2 (sint NumberOfLags)"
    and "0 \<le> sint NumberOfLags" and "sint NumberOfLags < sint DataSize"
  shows "outcome (fxpAutoCorrelation h1 InputData1 AutoCorrData1 DataSize NumberOfLags Scale)
             AutoCorrData1 (nat (sint NumberOfLags)) =
         outcome (fxpAutoCorrelation h2 InputData2 AutoCorrData2 DataSize NumberOfLags Scale)
             AutoCorrData2 (nat (sint NumberOfLags))"
proof -
  from fxp_contract [OF assms(1,3,4,6), of Scale] fxp_contract [OF assms(2,3,5,7), of Scale]
  obtain h1' h2'
    where r1: "fxpAutoCorrelation h1 InputData1 AutoCorrData1 DataSize NumberOfLags Scale = Inr h1'"
      and v1: "\<forall>L<nat (sint NumberOfLags). h1' (AutoCorrData1 + int L) =
         Some (word_coefficient xs (nat (sint DataSize)) Scale L)"
      and r2: "fxpAutoCorrelation h2 InputData2 AutoCorrData2 DataSize NumberOfLags Scale = Inr h2'"
      and v2: "\<forall>L<nat (sint NumberOfLags). h2' (AutoCorrData2 + int L) =
         Some (word_coefficient xs (nat (sint DataSize)) Scale L)"
    by blast
  have "read_array h1' AutoCorrData1 (nat (sint NumberOfLags)) =
      read_array h2' AutoCorrData2 (nat (sint NumberOfLags))"
    using v1 v2 by (intro read_array_eqI) simp
  with r1 r2 show ?thesis
    by (simp add: outcome_def)
qed

theorem deterministic_output_witness:
  "outcome (fxpAutoCorrelation scenario_store 0 10 5 3 0) 10 3 =
     outcome (fxpAutoCorrelation moved_store 100 50 5 3 0) 50 3"
proof -
  have "holds_at scenario_store 0 [4, 2, 1, - 3, 5]"
    and "holds_at moved_store 100 [4, 2, 1, - 3, 5]"
    and "sint (5 :: e_s16) \<le> int (length [4, 2, 1, - 3, 5 :: e_s16])"
    and "allocated scenario_store 10 (nat (sint (3 :: e_s16)))"
    and "allocated moved_store 50 (nat (sint (3 :: e_s16)))"
    and "separate 0 (sint (5 :: e_s16)) 10 (sint (3 :: e_s16))"
    and "separate 100 (sint (5 :: e_s16)) 50 (sint (3 :: e_s16))"
    and "0 \<le> sint (3 :: e_s16)" and "sint (3 :: e_s16) < sint (5 :: e_s16)"
    by code_simp+
  from deterministic_output [OF this, of 0] show ?thesis
    by simp
qed

text \<open>
  Claim C7. When \<open>0 \<le> NumberOfLags < DataSize\<close>, the store owns \<open>DataSize\<close> cells at
  \<open>InputData\<close> and \<open>NumberOfLags\<close> cells at \<open>AutoCorrData\<close>, no access of the call
  leaves the store. The same holds in the store cut down to exactly those cells, where
  a read of \<open>InputData\<close> at an index outside \<open>0 .. DataSize - 1\<close> or a write of
  \<open>AutoCorrData\<close> at an index outside \<open>0 .. NumberOfLags - 1\<close> would be out of bounds
  (the arrays may lie anywhere, also so far apart that no index of one reaches the
  other). Neither the overlap of the arrays nor \<open>Scale\<close> matters for this.
\<close>

theorem accesses_in_bounds:
  assumes "0 \<le> sint NumberOfLags" and "sint NumberOfLags < sint DataSize"
    and "allocated h InputData (nat (sint DataSize))"
    and "allocated h AutoCorrData (nat (sint NumberOfLags))"
  shows "fxpAutoCorrelation h InputData AutoCorrData DataSize NumberOfLags Scale \<noteq> Inl OutOfBounds \<and>
     fxpAutoCorrelation
       (h |` ({InputData..<InputData + sint DataSize} \<union>
              {AutoCorrData..<AutoCorrData + sint NumberOfLags}))
       InputData AutoCorrData DataSize NumberOfLags Scale \<noteq> Inl OutOfBounds"
proof -
  let ?A = "{InputData..<InputData + sint DataSize} \<union>
            {AutoCorrData..<AutoCorrData + sint NumberOfLags}"
  have inp: "\<forall>i. 0 \<le> i \<and> i < sint DataSize \<longrightarrow> InputData + i \<in> dom h"
    using allocated_dom [OF assms(3)] by auto
  have out: "\<forall>j. 0 \<le> j \<and> j < sint NumberOfLags \<longrightarrow> AutoCorrData + j \<in> dom h"
    using allocated_dom [OF assms(4)] by auto
  have inp': "\<forall>i. 0 \<le> i \<and> i < sint DataSize \<longrightarrow> InputData + i \<in> dom (h |` ?A)"
    using inp by auto
  have out': "\<forall>j. 0 \<le> j \<and> j < sint NumberOfLags \<longrightarrow> AutoCorrData + j \<in> dom (h |` ?A)"
    using out by auto
  from outer_loop_in_bounds [OF inp out, of 0] outer_loop_in_bounds [OF inp' out', of 0]
  show ?thesis
    by (simp add: fxpAutoCorrelation_def)
qed

theorem accesses_in_bounds_witness:
  "fxpAutoCorrelation scenario_store 0 10 5 3 0 \<noteq> Inl OutOfBounds \<and>
   fxpAutoCorrelation (scenario_store |` ({0..<0 + sint (5 :: e_s16)} \<union> {10..<10 + sint (3 :: e_s16)}))
       0 10 5 3 0 \<noteq> Inl OutOfBounds"
proof -
  have "0 \<le> sint (3 :: e_s16)" and "sint (3 :: e_s16) < sint (5 :: e_s16)"
    and "allocated scenario_store 0 (nat (sint (5 :: e_s16)))"
    and "allocated scenario_store 10 (nat (sint (3 :: e_s16)))"
    by code_simp+
  from accesses_in_bounds [OF this] show ?thesis .
qed

text \<open>
  Claim C8. A call that returns has changed nothing but the first \<open>NumberOfLags\<close>
  cells of the output array: the store owns the same cells as before, every cell outside
  \<open>AutoCorrData[0 .. NumberOfLags - 1]\<close> holds what it held, in particular the output
  cells from index \<open>NumberOfLags\<close> on, and the input array when it does not overlap the
  output. The store is all the state there is: the kernel has no variable that outlives
  the call.
\<close>

theorem only_output_written:
  assumes "fxpAutoCorrelation h InputData AutoCorrData DataSize NumberOfLags Scale = Inr h'"
  shows "dom h' = dom h \<and>
     (\<forall>a. \<not> (AutoCorrData \<le> a \<and> a < AutoCorrData + sint NumberOfLags) \<longrightarrow> h' a = h a) \<and>
     (\<forall>j. sint NumberOfLags \<le> j \<longrightarrow> h' (AutoCorrData + j) = h (AutoCorrData + j)) \<and>
     (separate InputData (sint DataSize) AutoCorrData (sint NumberOfLags) \<longrightarrow>
        read_array h' InputData (nat (sint DataSize)) = read_array h InputData (nat (sint DataSize)))"
proof -
  from assms have "outer_loop h InputData AutoCorrData DataSize NumberOfLags Scale 0 = Inr h'"
    by (simp add: fxpAutoCorrelation_def)
  from outer_loop_frame [OF this]
  have d: "dom h' = dom h"
    and fr: "\<forall>a. \<not> (AutoCorrData \<le> a \<and> a < AutoCorrData + sint NumberOfLags) \<longrightarrow> h' a = h a"
    by simp_all
  have beyond: "\<forall>j. sint NumberOfLags \<le> j \<longrightarrow> h' (AutoCorrData + j) = h (AutoCorrData + j)"
    using fr by simp
  have "read_array h' InputData (nat (sint DataSize)) = read_array h InputData (nat (sint DataSize))"
    if sep: "separate InputData (sint DataSize) AutoCorrData (sint NumberOfLags)"
  proof (rule read_array_eqI)
    fix i assume "i < nat (sint DataSize)"
    with sep have "\<not> (AutoCorrData \<le> InputData + int i \<and>
        InputData + int i < AutoCorrData + sint NumberOfLags)"
      by (auto simp: separate_def)
    with fr show "h' (InputData + int i) = h (InputData + int i)"
      by blast
  qed
  with d fr beyond show ?thesis
    by blast
qed

theorem only_output_written_witness:
  "\<exists>h'. fxpAutoCorrelation scenario_store 0 10 5 3 0 = Inr h' \<and>
     dom h' = dom scenario_store \<and>
     read_array h' 0 5 = [Some 4, Some 2, Some 1, Some (- 3), Some 5] \<and>
     read_array h' 10 3 = [Some 0, Some (- 1), Some 0]"
proof -
  have "outcome (fxpAutoCorrelation scenario_store 0 10 5 3 0) 10 3 = Inr [Some 0, Some (- 1), Some 0]"
    by code_simp
  then obtain h' where h': "fxpAutoCorrelation scenario_store 0 10 5 3 0 = Inr h'"
    and out: "read_array h' 10 3 = [Some 0, Some (- 1), Some 0]"
    by (auto simp: outcome_def split: sum.splits)
  have sep: "separate 0 (sint (5 :: e_s16)) 10 (sint (3 :: e_s16))"
    by code_simp
  have "read_array scenario_store 0 (nat (sint (5 :: e_s16))) = [Some 4, Some 2, Some 1, Some (- 3), Some 5]"
    by code_simp
  moreover have "nat (sint (5 :: e_s16)) = 5"
    by simp
  ultimately show ?thesis
    using only_output_written [OF h'] sep h' out by auto
qed

text \<open>
  Calls made back to back do not influence each other: under the contract of claim C1,
  the call repeated on the store it has just produced returns that very store.
\<close>

lemma repeated_call_same_store:
  assumes inp: "holds_at h p xs" and len: "sint D \<le> int (length xs)"
    and out: "allocated h q (nat (sint N))"
    and sep: "separate p (sint D) q (sint N)"
    and sc: "0 \<le> sint S" "sint S < 32"
    and first: "fxpAutoCorrelation h p q D N S = Inr h'"
  shows "fxpAutoCorrelation h' p q D N S = Inr h'"
proof -
  let ?c = "\<lambda>L. coefficient xs (nat (sint D)) (nat (sint S)) (nat L)"
  have cells: "\<forall>i<nat (sint D). h (p + int i) = Some (xs ! i)"
    using holds_at_nth [OF inp] len by auto
  have slots: "\<forall>j. 0 \<le> j \<and> j < sint N \<longrightarrow> q + j \<in> dom h"
    using allocated_dom [OF out] by auto
  from sep have sep': "q + sint N \<le> p \<or> p + sint D \<le> q"
    by (simp add: separate_def)
  from first have run: "outer_loop h p q D N S 0 = Inr h'"
    by (simp add: fxpAutoCorrelation_def)
  from outer_loop_result [OF cells slots sep' sc, of 0] run
  have vals: "\<forall>L. 0 \<le> L \<and> L < sint N \<longrightarrow> h' (q + L) = Some (?c L)"
    by simp
  from outer_loop_frame [OF run]
  have d: "dom h' = dom h"
    and fr: "\<forall>a. \<not> (q \<le> a \<and> a < q + sint N) \<longrightarrow> h' a = h a"
    by simp_all
  have cells': "\<forall>i<nat (sint D). h' (p + int i) = Some (xs ! i)"
  proof (intro allI impI)
    fix i assume i: "i < nat (sint D)"
    with sep' have "\<not> (q \<le> p + int i \<and> p + int i < q + sint N)"
      by auto
    with fr cells i show "h' (p + int i) = Some (xs ! i)"
      by simp
  qed
  have slots': "\<forall>j. 0 \<le> j \<and> j < sint N \<longrightarrow> q + j \<in> dom h'"
    using slots d by simp
  from outer_loop_result [OF cells' slots' sep' sc, of 0]
  obtain h'' where again: "outer_loop h' p q D N S 0 = Inr h''"
    and vals': "\<forall>L. 0 \<le> L \<and> L < sint N \<longrightarrow> h'' (q + L) = Some (?c L)"
    by auto
  from outer_loop_frame [OF again]
  have fr': "\<forall>a. \<not> (q \<le> a \<and> a < q + sint N) \<longrightarrow> h'' a = h' a"
    by simp
  have "h'' a = h' a" for a
  proof (cases "q \<le> a \<and> a < q + sint N")
    case False
    with fr' show ?thesis by simp
  next
    case True
    then have "0 \<le> a - q \<and> a - q < sint N"
      by simp
    then have "h'' (q + (a - q)) = Some (?c (a - q))" "h' (q + (a - q)) = Some (?c (a - q))"
      using vals vals' by blast+
    then show ?thesis by simp
  qed
  then have "h'' = h'"
    by (rule ext)
  with again show ?thesis
    by (simp add: fxpAutoCorrelation_def)
qed

text \<open>
  Claim C9. With \<open>NumberOfLags \<le> 0\<close> the outer loop body never runs: the call returns
  the store it was given, in every store, also in the empty one where any read or write
  would be a fault.
\<close>

theorem no_lags_no_access:
  "sint NumberOfLags \<le> 0 \<Longrightarrow>
     fxpAutoCorrelation h InputData AutoCorrData DataSize NumberOfLags Scale = Inr h"
  by (simp add: fxpAutoCorrelation_def outer_loop_done)

theorem no_lags_no_access_witness:
  "sint (0 :: e_s16) \<le> 0 \<and> fxpAutoCorrelation Map.empty 0 10 5 0 0 = Inr Map.empty"
  using no_lags_no_access [of 0 Map.empty 0 10 5 0] by simp

text \<open>
  Claim C10. For lag counts \<open>n \<le> m\<close>, whenever the call with \<open>NumberOfLags = m\<close>
  returns, so does the call with \<open>NumberOfLags = n\<close>, and its \<open>n\<close> outputs are the
  first \<open>n\<close> outputs of the former.
\<close>

theorem lag_count_prefix:
  assumes "sint n \<le> sint m"
    and "fxpAutoCorrelation h InputData AutoCorrData DataSize m Scale = Inr hm"
  shows "\<exists>hn. fxpAutoCorrelation h InputData AutoCorrData DataSize n Scale = Inr hn \<and>
     read_array hn AutoCorrData (nat (sint n)) =
       take (nat (sint n)) (read_array hm AutoCorrData (nat (sint m)))"
proof (cases "0 \<le> sint n")
  case False
  then have "fxpAutoCorrelation h InputData AutoCorrData DataSize n Scale = Inr h"
    by (simp add: fxpAutoCorrelation_def outer_loop_done)
  moreover from False have "nat (sint n) = 0"
    by simp
  ultimately show ?thesis
    by (simp add: read_array_def)
next
  case True
  from outer_loop_split [OF True assms(1), of h InputData AutoCorrData DataSize Scale] assms(2)
  obtain hn where hn: "outer_loop h InputData AutoCorrData DataSize n Scale 0 = Inr hn"
    and rest: "outer_loop hn InputData AutoCorrData DataSize m Scale (sint n) = Inr hm"
    by (auto simp: fxpAutoCorrelation_def split: sum.splits)
  have same: "hn (AutoCorrData + int i) = hm (AutoCorrData + int i)" if "i < nat (sint n)" for i
  proof -
    from that have "int i < sint n"
      by linarith
    then have "\<not> (AutoCorrData + sint n \<le> AutoCorrData + int i \<and>
        AutoCorrData + int i < AutoCorrData + sint m)"
      by simp
    with outer_loop_frame [OF rest] show ?thesis
      by simp
  qed
  have "take (nat (sint n)) (read_array hm AutoCorrData (nat (sint m))) =
      read_array hm AutoCorrData (nat (sint n))"
    using assms(1) by (simp add: read_array_def take_map min_def)
  also have "\<dots> = read_array hn AutoCorrData (nat (sint n))"
    using same by (intro read_array_eqI) simp
  finally show ?thesis
    using hn by (simp add: fxpAutoCorrelation_def)
qed

theorem lag_count_prefix_witness:
  "\<exists>h3 h2. fxpAutoCorrelation scenario_store 0 10 5 3 0 = Inr h3 \<and>
     fxpAutoCorrelation scenario_store 0 10 5 2 0 = Inr h2 \<and>
     read_array h3 10 3 = [Some 0, Some (- 1), Some 0] \<and>
     read_array h2 10 2 = [Some 0, Some (- 1)]"
proof -
  have "outcome (fxpAutoCorrelation scenario_store 0 10 5 3 0) 10 3 = Inr [Some 0, Some (- 1), Some 0]"
    by code_simp
  then obtain h3 where h3: "fxpAutoCorrelation scenario_store 0 10 5 3 0 = Inr h3"
    and out: "read_array h3 10 3 = [Some 0, Some (- 1), Some 0]"
    by (auto simp: outcome_def split: sum.splits)
  have le: "sint (2 :: e_s16) \<le> sint (3 :: e_s16)"
    by simp
  from lag_count_prefix [OF le h3]
  obtain h2 where "fxpAutoCorrelation scenario_store 0 10 5 2 0 = Inr h2"
    and "read_array h2 10 (nat (sint (2 :: e_s16))) =
       take (nat (sint (2 :: e_s16))) (read_array h3 10 (nat (sint (3 :: e_s16))))"
    by blast
  with h3 out show ?thesis
    by simp
qed

end
